theory Spec2Isabelle
  imports Main
begin

section \<open>The four collections\<close>

text \<open>
  The service \<open>GroupService\<close> of \<open>src/server/src/group/group.service.ts\<close> works on four
  MongoDB collections: \<open>Group\<close>, \<open>GroupMember\<close>, \<open>GroupInvite\<close> and \<open>GroupApplication\<close>.
  A collection is a list of documents in natural order (duplicates matter for what an
  aggregation returns). Object ids and dates are opaque, so natural numbers stand for them.
\<close>

type_synonym ObjectId = nat
type_synonym Date = nat

text \<open>
  The optional field \<open>appid\<close> of a stored document: the key may be missing, it may hold
  BSON null, or it holds a string. The filter \<open>{appid: null}\<close> accepts the first two, the
  filter \<open>{appid: {$exists: false}}\<close> only the first.
\<close>

datatype bson_appid = Missing | Null | Str string

text \<open>
  A field of a stored document that holds a value or BSON null. \<open>create\<close> writes values;
  \<open>update\<close> writes null where its argument supplies a key whose value is \<open>undefined\<close>.
\<close>

datatype 'a nullable = IsNull | Val 'a

text \<open>
  Modelled from the spec: the entity declarations \<open>entities/group\<close>,
  \<open>entities/group-member\<close> and \<open>entities/group-application\<close> are not part of the sources.
  The fields are the ones the service reads and writes and the spec's data model lists;
  the roles are \<open>Owner\<close> and unnamed others.
\<close>

datatype GroupRole = Owner | OtherRole nat

record Group =
  g_id :: ObjectId
  g_name :: "string nullable"
  g_appid :: bson_appid
  g_createdBy :: "ObjectId nullable"
  g_createdAt :: "Date nullable"
  g_updatedAt :: "Date nullable"

record GroupMember =
  m_groupId :: ObjectId
  m_uid :: ObjectId
  m_role :: GroupRole

record GroupInvite =
  i_groupId :: ObjectId
  i_code :: string

record GroupApplication =
  a_groupId :: ObjectId
  a_appid :: bson_appid

record db =
  c_Group :: "Group list"
  c_GroupMember :: "GroupMember list"
  c_GroupInvite :: "GroupInvite list"
  c_GroupApplication :: "GroupApplication list"

section \<open>Errors, the environment and the session\<close>

text \<open>
  \<open>StorageError\<close> and \<open>TransientTransactionError\<close> are the rejections of a driver call that
  the environment decides (network, server, expired session); the second kind carries the
  error label \<open>TransientTransactionError\<close>, which the driver and the server put on network
  errors and write conflicts inside a transaction. \<open>DuplicateKey\<close> is the server's answer
  to an insert whose \<open>_id\<close> is taken; \<open>MongoTransactionError\<close> is thrown by the session's
  own state checks; \<open>JsError\<close> is \<open>new Error(msg)\<close>.
\<close>

datatype error =
    StorageError nat
  | TransientTransactionError nat
  | DuplicateKey ObjectId
  | MongoTransactionError string
  | JsError string

fun hasTransientLabel :: "error \<Rightarrow> bool" where
  "hasTransientLabel (TransientTransactionError n) = True"
| "hasTransientLabel e = False"

datatype call =
    FindOne
  | InsertOne
  | AddOne
  | Append
  | DeleteOne
  | RemoveAllMembers
  | DeleteManyInviteCode
  | RemoveAllApplications
  | CommitTransaction
  | Aggregate
  | CountDocuments
  | FindOneAndUpdate

text \<open>
  What a call of the service takes from outside: for each kind of driver or collaborator
  call whether it rejects and with which error, the object id the driver generates for
  an insert, the two readings of the clock (\<open>new Date()\<close> is evaluated twice in \<open>create\<close>,
  once in \<open>update\<close>), and the client option \<open>ignoreUndefined\<close> (the construction of the
  client is not part of the sources; the driver's default is \<open>False\<close>). Each kind of call
  is made at most once per service call, except inside the callback of
  \<open>withTransaction\<close>, which the driver may run again: every run of the callback has an
  environment of its own.
\<close>

record env =
  faults :: "call \<Rightarrow> error option"
  newObjectId :: ObjectId
  now1 :: Date
  now2 :: Date
  ignoreUndefined :: bool

text \<open>
  The transaction state of a \<open>ClientSession\<close>. While a transaction is in progress the
  calls bound to the session read and write \<open>snapshot\<close>, the session's private copy; a
  commit publishes the copy, an abort drops it.
\<close>

datatype TxnState =
    NO_TRANSACTION
  | TRANSACTION_IN_PROGRESS
  | TRANSACTION_COMMITTED
  | TRANSACTION_ABORTED

record ClientSession =
  txn :: TxnState
  snapshot :: db
  hasEnded :: bool

record world =
  store :: db
  sess :: ClientSession

type_synonym 'a io = "world \<Rightarrow> (error + 'a) \<times> world"

definition ret :: "'a \<Rightarrow> 'a io" where
  "ret x w = (Inr x, w)"

definition throw :: "error \<Rightarrow> 'a io" where
  "throw e w = (Inl e, w)"

definition bind_io :: "'a io \<Rightarrow> ('a \<Rightarrow> 'b io) \<Rightarrow> 'b io" where
  "bind_io m f w = (case m w of (Inl e, w') \<Rightarrow> (Inl e, w') | (Inr x, w') \<Rightarrow> f x w')"

definition catch_io :: "'a io \<Rightarrow> (error \<Rightarrow> 'a io) \<Rightarrow> 'a io" where
  "catch_io m h w = (case m w of (Inl e, w') \<Rightarrow> h e w' | (Inr x, w') \<Rightarrow> (Inr x, w'))"

text \<open>\<open>try { m } finally { c }\<close>: \<open>c\<close> always runs; if it throws, its error wins.\<close>

definition finally_io :: "'a io \<Rightarrow> unit io \<Rightarrow> 'a io" where
  "finally_io m c w =
     (case m w of (r, w') \<Rightarrow>
        (case c w' of (Inl e, w'') \<Rightarrow> (Inl e, w'') | (Inr _, w'') \<Rightarrow> (r, w'')))"

text \<open>A driver or collaborator call of kind \<open>c\<close>: it rejects without effect when the environment says so.\<close>

definition call_io :: "env \<Rightarrow> call \<Rightarrow> 'a io \<Rightarrow> 'a io" where
  "call_io ev c m w = (case faults ev c of Some e \<Rightarrow> (Inl e, w) | None \<Rightarrow> m w)"

definition current :: "world \<Rightarrow> db" where
  "current w = (if txn (sess w) = TRANSACTION_IN_PROGRESS then snapshot (sess w) else store w)"

definition modify :: "(db \<Rightarrow> db) \<Rightarrow> unit io" where
  "modify f w =
     (Inr (),
      if txn (sess w) = TRANSACTION_IN_PROGRESS
      then w\<lparr>sess := (sess w)\<lparr>snapshot := f (snapshot (sess w))\<rparr>\<rparr>
      else w\<lparr>store := f (store w)\<rparr>)"

definition empty_db :: db where
  "empty_db = \<lparr>c_Group = [], c_GroupMember = [], c_GroupInvite = [], c_GroupApplication = []\<rparr>"

definition startSession :: ClientSession where
  "startSession = \<lparr>txn = NO_TRANSACTION, snapshot = empty_db, hasEnded = False\<rparr>"

definition inTransaction :: "world \<Rightarrow> bool" where
  "inTransaction w = (txn (sess w) = TRANSACTION_IN_PROGRESS)"

definition startTransaction :: "unit io" where
  "startTransaction w =
     (if inTransaction w
      then (Inl (MongoTransactionError ''Transaction already in progress''), w)
      else (Inr (), w\<lparr>sess := (sess w)\<lparr>txn := TRANSACTION_IN_PROGRESS, snapshot := store w\<rparr>\<rparr>))"

text \<open>
  A commit that the server rejects leaves the session in state committed (as the driver
  does). With the transient label the server has aborted the transaction, so the store
  is as it was. Without the label the client does not know the outcome; this model takes
  the store as it was there too, and no statement below is about the store after such a
  rejection.
\<close>

definition commitTransaction :: "env \<Rightarrow> unit io" where
  "commitTransaction ev w =
     (case txn (sess w) of
        NO_TRANSACTION \<Rightarrow> (Inl (MongoTransactionError ''No transaction started''), w)
      | TRANSACTION_ABORTED \<Rightarrow>
          (Inl (MongoTransactionError
             ''Cannot call commitTransaction after calling abortTransaction''), w)
      | TRANSACTION_COMMITTED \<Rightarrow> (Inr (), w)
      | TRANSACTION_IN_PROGRESS \<Rightarrow>
          (case faults ev CommitTransaction of
             Some e \<Rightarrow> (Inl e, w\<lparr>sess := (sess w)\<lparr>txn := TRANSACTION_COMMITTED\<rparr>\<rparr>)
           | None \<Rightarrow>
               (Inr (), w\<lparr>store := snapshot (sess w),
                          sess := (sess w)\<lparr>txn := TRANSACTION_COMMITTED\<rparr>\<rparr>)))"

text \<open>The driver ignores every error of the abort command itself; only the state checks throw.\<close>

definition abortTransaction :: "unit io" where
  "abortTransaction w =
     (case txn (sess w) of
        NO_TRANSACTION \<Rightarrow> (Inl (MongoTransactionError ''No transaction started''), w)
      | TRANSACTION_ABORTED \<Rightarrow>
          (Inl (MongoTransactionError ''Cannot call abortTransaction twice''), w)
      | TRANSACTION_COMMITTED \<Rightarrow>
          (Inl (MongoTransactionError
             ''Cannot call abortTransaction after calling commitTransaction''), w)
      | TRANSACTION_IN_PROGRESS \<Rightarrow>
          (Inr (), w\<lparr>sess := (sess w)\<lparr>txn := TRANSACTION_ABORTED\<rparr>\<rparr>))"

text \<open>\<open>endSession\<close> aborts a transaction in progress, marks the session ended and never throws.\<close>

definition endSession :: "unit io" where
  "endSession w =
     (Inr (),
      w\<lparr>sess := (sess w)\<lparr>
           txn := (if inTransaction w then TRANSACTION_ABORTED else txn (sess w)),
           hasEnded := True\<rparr>\<rparr>)"

text \<open>
  One attempt of \<open>session.withTransaction(fn)\<close>: start, run the callback, commit; when the
  callback throws, abort if still in a transaction and hand the error on. The callback's
  value stands for the variable \<open>group\<close> that the closure in \<open>create\<close> assigns.
\<close>

definition attemptTransaction :: "env \<Rightarrow> 'a io \<Rightarrow> 'a io" where
  "attemptTransaction ev fn =
     bind_io startTransaction (\<lambda>_.
     bind_io
       (catch_io fn
          (\<lambda>e. bind_io (\<lambda>w. if inTransaction w then abortTransaction w else ret () w)
                 (\<lambda>_. throw e)))
       (\<lambda>x. bind_io (commitTransaction ev) (\<lambda>_. ret x)))"

text \<open>
  \<open>session.withTransaction(fn)\<close>: when an attempt ends in an error that carries the label
  \<open>TransientTransactionError\<close> and the driver's time limit (120 seconds) has not passed,
  the driver runs the whole callback again in a new transaction; any other error, and a
  transient one after the limit, is thrown. The list \<open>later\<close> holds the environments of
  the runs that still fit in the time limit after the first one; it is empty when there
  is no time for a second run.
\<close>

fun withTransaction :: "env \<Rightarrow> env list \<Rightarrow> (env \<Rightarrow> 'a io) \<Rightarrow> 'a io" where
  "withTransaction ev [] fn w = attemptTransaction ev (fn ev) w"
| "withTransaction ev (ev' # later) fn w =
     (case attemptTransaction ev (fn ev) w of
        (Inl e, w') \<Rightarrow>
          if hasTransientLabel e then withTransaction ev' later fn w' else (Inl e, w')
      | (Inr x, w') \<Rightarrow> (Inr x, w'))"

section \<open>Plain accessors\<close>

text \<open>An \<open>undefined\<close> value in a document literal: dropped with \<open>ignoreUndefined\<close>, else stored as null.\<close>

definition bson_optional :: "env \<Rightarrow> string option \<Rightarrow> bson_appid" where
  "bson_optional ev a =
     (case a of Some s \<Rightarrow> Str s | None \<Rightarrow> if ignoreUndefined ev then Missing else Null)"

definition findOne :: "env \<Rightarrow> ObjectId \<Rightarrow> Group option io" where
  "findOne ev groupId =
     call_io ev FindOne (\<lambda>w. (Inr (find (\<lambda>g. g_id g = groupId) (c_Group (current w))), w))"

definition countGroups :: "env \<Rightarrow> ObjectId \<Rightarrow> db \<Rightarrow> error + nat" where
  "countGroups ev uid d =
     (case faults ev CountDocuments of
        Some e \<Rightarrow> Inl e
      | None \<Rightarrow>
          Inr (length (filter (\<lambda>g. g_createdBy g = Val uid \<and> g_appid g = Missing) (c_Group d))))"







fun delete_first :: "('a \<Rightarrow> bool) \<Rightarrow> 'a list \<Rightarrow> 'a list" where
  "delete_first P [] = []"
| "delete_first P (x # xs) = (if P x then xs else x # delete_first P xs)"


section \<open>The aggregation queries\<close>

text \<open>The filter \<open>{appid: null}\<close> matches a missing key and a null value.\<close>

fun matches_null :: "bson_appid \<Rightarrow> bool" where
  "matches_null Missing = True"
| "matches_null Null = True"
| "matches_null (Str s) = False"

text \<open>\<open>$unwind\<close>: one output row per element of the joined array, none for an empty array.\<close>

definition unwind :: "('a \<times> 'b list) list \<Rightarrow> ('a \<times> 'b) list" where
  "unwind rows = concat (map (\<lambda>(r, xs). map (\<lambda>x. (r, x)) xs) rows)"

record MemberView =
  v_role :: GroupRole
  v_uid :: ObjectId

record GroupWithMembers =
  r_id :: ObjectId
  r_name :: "string nullable"
  r_createdAt :: "Date nullable"
  r_updatedAt :: "Date nullable"
  r_members :: "MemberView list"

record GroupWithRole =
  w_id :: ObjectId
  w_name :: "string nullable"
  w_createdAt :: "Date nullable"
  w_updatedAt :: "Date nullable"
  w_role :: GroupRole

definition project_members :: "Group \<Rightarrow> MemberView list \<Rightarrow> GroupWithMembers" where
  "project_members g ms =
     \<lparr>r_id = g_id g, r_name = g_name g, r_createdAt = g_createdAt g,
      r_updatedAt = g_updatedAt g, r_members = ms\<rparr>"

text \<open>The second \<open>$lookup\<close> of \<open>findAll\<close>: the membership rows of a group, projected to \<open>{role, uid}\<close>.\<close>

definition lookup_members :: "ObjectId \<Rightarrow> db \<Rightarrow> MemberView list" where
  "lookup_members groupId d =
     map (\<lambda>x. \<lparr>v_role = m_role x, v_uid = m_uid x\<rparr>)
       (filter (\<lambda>x. m_groupId x = groupId) (c_GroupMember d))"

definition findAll_pipeline :: "ObjectId \<Rightarrow> db \<Rightarrow> GroupWithMembers list" where
  "findAll_pipeline uid d =
     (let matched = filter (\<lambda>m. m_uid m = uid) (c_GroupMember d);
          looked = map (\<lambda>m. (m, filter (\<lambda>g. matches_null (g_appid g))
                                   (filter (\<lambda>g. g_id g = m_groupId m) (c_Group d)))) matched;
          unwound = unwind looked;
          joined = map (\<lambda>(m, g). (g, lookup_members (m_groupId m) d)) unwound
      in map (\<lambda>(g, ms). project_members g ms) joined)"

definition findAll :: "env \<Rightarrow> ObjectId \<Rightarrow> db \<Rightarrow> error + GroupWithMembers list" where
  "findAll ev uid d =
     (case faults ev Aggregate of
        Some e \<Rightarrow> Inl (JsError ''Failed to get group members'')
      | None \<Rightarrow> Inr (findAll_pipeline uid d))"

definition project_role :: "Group \<Rightarrow> GroupRole \<Rightarrow> GroupWithRole" where
  "project_role g r =
     \<lparr>w_id = g_id g, w_name = g_name g, w_createdAt = g_createdAt g,
      w_updatedAt = g_updatedAt g, w_role = r\<rparr>"

definition findGroupsByAppidAndUid_pipeline :: "string \<Rightarrow> ObjectId \<Rightarrow> db \<Rightarrow> GroupWithRole list" where
  "findGroupsByAppidAndUid_pipeline appid uid d =
     (let matched = filter (\<lambda>a. a_appid a = Str appid) (c_GroupApplication d);
          looked = map (\<lambda>a. (a, filter (\<lambda>g. g_id g = a_groupId a) (c_Group d))) matched;
          unwound = unwind looked;
          joined = map (\<lambda>(a, g).
                     (g, filter (\<lambda>m. m_groupId m = a_groupId a \<and> m_uid m = uid)
                           (c_GroupMember d))) unwound;
          unwound2 = unwind joined
      in map (\<lambda>(g, m). project_role g (m_role m)) unwound2)"

definition findGroupsByAppidAndUid ::
    "env \<Rightarrow> string \<Rightarrow> ObjectId \<Rightarrow> db \<Rightarrow> error + GroupWithRole list" where
  "findGroupsByAppidAndUid ev appid uid d =
     (case faults ev Aggregate of
        Some e \<Rightarrow> Inl (JsError ''Failed to get groups data'')
      | None \<Rightarrow> Inr (findGroupsByAppidAndUid_pipeline appid uid d))"

definition findOneWithRole_pipeline :: "ObjectId \<Rightarrow> ObjectId \<Rightarrow> db \<Rightarrow> GroupWithRole list" where
  "findOneWithRole_pipeline groupId uid d =
     (let matched = filter (\<lambda>m. m_groupId m = groupId \<and> m_uid m = uid) (c_GroupMember d);
          looked = map (\<lambda>m. (m, filter (\<lambda>g. g_id g = m_groupId m) (c_Group d))) matched;
          unwound = unwind looked
      in map (\<lambda>(m, g). project_role g (m_role m)) unwound)"

text \<open>\<open>.next()\<close> is the first row of the cursor, or null. There is no \<open>try\<close> here: an error of the driver goes to the caller as it is.\<close>

definition findOneWithRole ::
    "env \<Rightarrow> ObjectId \<Rightarrow> ObjectId \<Rightarrow> db \<Rightarrow> error + GroupWithRole option" where
  "findOneWithRole ev groupId uid d =
     (case faults ev Aggregate of
        Some e \<Rightarrow> Inl e
      | None \<Rightarrow>
          Inr (case findOneWithRole_pipeline groupId uid d of [] \<Rightarrow> None | r # _ \<Rightarrow> Some r))"

section \<open>The collaborators\<close>

text \<open>
  Modelled from the spec: \<open>GroupMemberService\<close> (\<open>addOne\<close>, \<open>removeAll\<close>),
  \<open>GroupInviteService\<close> (\<open>deleteManyInviteCode\<close>) and \<open>GroupApplicationService\<close>
  (\<open>append\<close>, \<open>removeAll\<close>) are not part of the sources. By the spec they are simple keyed
  stores: add one membership \<open>(groupId, uid, role)\<close>, remove all memberships of a group,
  delete all invite codes of a group, append one application record \<open>(groupId, appid)\<close>
  (also when \<open>appid\<close> is absent), remove all application records of a group; each takes
  the transaction scope.
\<close>

definition addOne :: "env \<Rightarrow> ObjectId \<Rightarrow> ObjectId \<Rightarrow> GroupRole \<Rightarrow> unit io" where
  "addOne ev groupId uid role =
     call_io ev AddOne
       (modify (\<lambda>d. d\<lparr>c_GroupMember :=
          c_GroupMember d @ [\<lparr>m_groupId = groupId, m_uid = uid, m_role = role\<rparr>]\<rparr>))"

definition removeAll_members :: "env \<Rightarrow> ObjectId \<Rightarrow> unit io" where
  "removeAll_members ev groupId =
     call_io ev RemoveAllMembers
       (modify (\<lambda>d. d\<lparr>c_GroupMember := filter (\<lambda>m. m_groupId m \<noteq> groupId) (c_GroupMember d)\<rparr>))"

definition deleteManyInviteCode :: "env \<Rightarrow> ObjectId \<Rightarrow> unit io" where
  "deleteManyInviteCode ev groupId =
     call_io ev DeleteManyInviteCode
       (modify (\<lambda>d. d\<lparr>c_GroupInvite := filter (\<lambda>i. i_groupId i \<noteq> groupId) (c_GroupInvite d)\<rparr>))"

definition append_application :: "env \<Rightarrow> ObjectId \<Rightarrow> string option \<Rightarrow> unit io" where
  "append_application ev groupId appid =
     call_io ev Append
       (modify (\<lambda>d. d\<lparr>c_GroupApplication :=
          c_GroupApplication d @ [\<lparr>a_groupId = groupId, a_appid = bson_optional ev appid\<rparr>]\<rparr>))"

definition removeAll_applications :: "env \<Rightarrow> ObjectId \<Rightarrow> unit io" where
  "removeAll_applications ev groupId =
     call_io ev RemoveAllApplications
       (modify (\<lambda>d. d\<lparr>c_GroupApplication :=
          filter (\<lambda>a. a_groupId a \<noteq> groupId) (c_GroupApplication d)\<rparr>))"

section \<open>Create and delete\<close>

text \<open>
  \<open>insertOne\<close> on \<open>Group\<close>: the driver adds the generated \<open>_id\<close>; the server's unique index
  on \<open>_id\<close> rejects an id that is taken. The result is \<open>res.insertedId\<close>.
\<close>

definition insertOne_Group ::
    "env \<Rightarrow> string \<Rightarrow> string option \<Rightarrow> ObjectId \<Rightarrow> Date \<Rightarrow> Date \<Rightarrow> ObjectId io" where
  "insertOne_Group ev name appid createdBy createdAt updatedAt =
     call_io ev InsertOne (\<lambda>w.
       if newObjectId ev \<in> set (map g_id (c_Group (current w)))
       then (Inl (DuplicateKey (newObjectId ev)), w)
       else bind_io
              (modify (\<lambda>d. d\<lparr>c_Group := c_Group d @
                 [\<lparr>g_id = newObjectId ev, g_name = Val name, g_appid = bson_optional ev appid,
                   g_createdBy = Val createdBy, g_createdAt = Val createdAt,
                   g_updatedAt = Val updatedAt\<rparr>]\<rparr>))
              (\<lambda>_. ret (newObjectId ev)) w)"

definition deleteOne_Group :: "env \<Rightarrow> ObjectId \<Rightarrow> unit io" where
  "deleteOne_Group ev groupId =
     call_io ev DeleteOne
       (modify (\<lambda>d. d\<lparr>c_Group := delete_first (\<lambda>g. g_id g = groupId) (c_Group d)\<rparr>))"

text \<open>
  The arrow function that \<open>create\<close> passes to \<open>withTransaction\<close> (lines 194 to 222): insert
  the group, add the owner, append the application record, read the group back. Every
  run builds the document anew, so it reads the clock again and gets a new \<open>_id\<close>.
\<close>

definition create_callback :: "string \<Rightarrow> ObjectId \<Rightarrow> string option \<Rightarrow> env \<Rightarrow> Group option io" where
  "create_callback name createdBy appid ev =
     bind_io (insertOne_Group ev name appid createdBy (now1 ev) (now2 ev)) (\<lambda>insertedId.
     bind_io (addOne ev insertedId createdBy Owner) (\<lambda>_.
     bind_io (append_application ev insertedId appid) (\<lambda>_.
     findOne ev insertedId)))"

text \<open>
  \<open>create\<close>: the session is started before the \<open>try\<close>; the \<open>catch\<close> logs and rethrows; the
  \<open>finally\<close> ends the session. The result is the pair of what the caller gets and the
  world after the call. \<open>ev\<close> is the environment of the first run of the callback,
  \<open>later\<close> the environments of the runs after it (see \<open>withTransaction\<close>).
\<close>

definition create ::
    "env \<Rightarrow> env list \<Rightarrow> string \<Rightarrow> ObjectId \<Rightarrow> string option \<Rightarrow> db
       \<Rightarrow> (error + Group option) \<times> world" where
  "create ev later name createdBy appid d =
     finally_io
       (catch_io
          (withTransaction ev later (create_callback name createdBy appid))
          (\<lambda>err. throw err))
       endSession
       \<lparr>store = d, sess = startSession\<rparr>"

text \<open>
  \<open>delete\<close>: without a session argument it starts one and remembers to end it. The group
  is read before the \<open>try\<close>. Inside: start the transaction, the four deletions, commit.
  The \<open>catch\<close> aborts and rethrows; the \<open>finally\<close> ends the session only if this call
  started it.
\<close>

definition delete ::
    "env \<Rightarrow> ObjectId \<Rightarrow> ClientSession option \<Rightarrow> db \<Rightarrow> (error + Group option) \<times> world" where
  "delete ev groupId session d =
     (let needEndSession = (session = None);
          s = (case session of None \<Rightarrow> startSession | Some s' \<Rightarrow> s')
      in bind_io (findOne ev groupId) (\<lambda>group.
           finally_io
             (catch_io
                (bind_io startTransaction (\<lambda>_.
                 bind_io (deleteOne_Group ev groupId) (\<lambda>_.
                 bind_io (removeAll_members ev groupId) (\<lambda>_.
                 bind_io (deleteManyInviteCode ev groupId) (\<lambda>_.
                 bind_io (removeAll_applications ev groupId) (\<lambda>_.
                 bind_io (commitTransaction ev) (\<lambda>_.
                 ret group)))))))
                (\<lambda>err. bind_io abortTransaction (\<lambda>_. throw err)))
             (if needEndSession then endSession else ret ()))
           \<lparr>store = d, sess = s\<rparr>)"

section \<open>Auxiliary definitions for the statements\<close>

text \<open>The error of the first call, in program order, that the environment makes reject.\<close>

fun first_fault :: "env \<Rightarrow> call list \<Rightarrow> error option" where
  "first_fault ev [] = None"
| "first_fault ev (c # cs) = (case faults ev c of Some e \<Rightarrow> Some e | None \<Rightarrow> first_fault ev cs)"

text \<open>The document that \<open>create\<close> inserts, and the store after a committed \<open>create\<close>.\<close>

definition new_group :: "env \<Rightarrow> string \<Rightarrow> ObjectId \<Rightarrow> string option \<Rightarrow> Group" where
  "new_group ev name createdBy appid =
     \<lparr>g_id = newObjectId ev, g_name = Val name, g_appid = bson_optional ev appid,
      g_createdBy = Val createdBy, g_createdAt = Val (now1 ev), g_updatedAt = Val (now2 ev)\<rparr>"

definition created :: "env \<Rightarrow> string \<Rightarrow> ObjectId \<Rightarrow> string option \<Rightarrow> db \<Rightarrow> db" where
  "created ev name createdBy appid d =
     d\<lparr>c_Group := c_Group d @ [new_group ev name createdBy appid],
       c_GroupMember := c_GroupMember d @
          [\<lparr>m_groupId = newObjectId ev, m_uid = createdBy, m_role = Owner\<rparr>],
       c_GroupApplication := c_GroupApplication d @
          [\<lparr>a_groupId = newObjectId ev, a_appid = bson_optional ev appid\<rparr>]\<rparr>"

text \<open>The store after the four deletions of \<open>delete\<close>.\<close>

definition purged :: "ObjectId \<Rightarrow> db \<Rightarrow> db" where
  "purged groupId d =
     d\<lparr>c_Group := delete_first (\<lambda>g. g_id g = groupId) (c_Group d),
       c_GroupMember := filter (\<lambda>m. m_groupId m \<noteq> groupId) (c_GroupMember d),
       c_GroupInvite := filter (\<lambda>i. i_groupId i \<noteq> groupId) (c_GroupInvite d),
       c_GroupApplication := filter (\<lambda>a. a_groupId a \<noteq> groupId) (c_GroupApplication d)\<rparr>"

text \<open>
  A small database for the concrete instances: user 10 belongs to the plain groups 1 and
  4 and to group 2 of application \<open>a1\<close>, and holds a dangling membership of the deleted
  group 9; user 11 belongs to group 1 and to group 3 of the same application.
\<close>

definition ex_db :: db where
  "ex_db =
     \<lparr>c_Group =
        [\<lparr>g_id = 1, g_name = Val ''plain'', g_appid = Null, g_createdBy = Val 10,
          g_createdAt = Val 5, g_updatedAt = Val 5\<rparr>,
         \<lparr>g_id = 2, g_name = Val ''scoped'', g_appid = Str ''a1'', g_createdBy = Val 10,
          g_createdAt = Val 6, g_updatedAt = Val 6\<rparr>,
         \<lparr>g_id = 3, g_name = Val ''other'', g_appid = Str ''a1'', g_createdBy = Val 11,
          g_createdAt = Val 7, g_updatedAt = Val 7\<rparr>,
         \<lparr>g_id = 4, g_name = Val ''legacy'', g_appid = Missing, g_createdBy = Val 10,
          g_createdAt = Val 8, g_updatedAt = Val 8\<rparr>],
      c_GroupMember =
        [\<lparr>m_groupId = 1, m_uid = 10, m_role = Owner\<rparr>,
         \<lparr>m_groupId = 2, m_uid = 10, m_role = Owner\<rparr>,
         \<lparr>m_groupId = 1, m_uid = 11, m_role = OtherRole 0\<rparr>,
         \<lparr>m_groupId = 3, m_uid = 11, m_role = OtherRole 1\<rparr>,
         \<lparr>m_groupId = 4, m_uid = 10, m_role = Owner\<rparr>,
         \<lparr>m_groupId = 9, m_uid = 10, m_role = Owner\<rparr>],
      c_GroupInvite =
        [\<lparr>i_groupId = 1, i_code = ''x''\<rparr>, \<lparr>i_groupId = 2, i_code = ''y''\<rparr>],
      c_GroupApplication =
        [\<lparr>a_groupId = 1, a_appid = Null\<rparr>,
         \<lparr>a_groupId = 2, a_appid = Str ''a1''\<rparr>,
         \<lparr>a_groupId = 3, a_appid = Str ''a1''\<rparr>]\<rparr>"

definition ex_env :: env where
  "ex_env = \<lparr>faults = (\<lambda>_. None), newObjectId = 7, now1 = 100, now2 = 101,
             ignoreUndefined = False\<rparr>"

definition ex_env_failing :: "call \<Rightarrow> env" where
  "ex_env_failing c = ex_env\<lparr>faults := (\<lambda>c'. if c' = c then Some (StorageError 1) else None)\<rparr>"


section \<open>Lists with a key\<close>

lemma filter_key_distinct:
  "distinct (map key xs) \<Longrightarrow>
   map (\<lambda>x. c) (filter (\<lambda>x. key x = k \<and> P x) xs) =
     (if \<exists>x \<in> set xs. key x = k \<and> P x then [c] else [])"
proof (induction xs)
  case Nil
  then show ?case by simp
next
  case (Cons x xs)
  show ?case
  proof (cases "key x = k \<and> P x")
    case True
    from Cons.prems have "key x \<notin> key ` set xs" by simp
    with True have "\<forall>y \<in> set xs. key y \<noteq> k" by (metis imageI)
    then have "filter (\<lambda>x. key x = k \<and> P x) xs = []" by (simp add: filter_empty_conv)
    with True show ?thesis by simp
  next
    case False
    with Cons show ?thesis by auto
  qed
qed

lemma map_key_filter_distinct:
  assumes "distinct (map key xs)"
  shows "map key (filter (\<lambda>x. key x = k \<and> P x) xs) =
           (if \<exists>x \<in> set xs. key x = k \<and> P x then [k] else [])"
proof -
  have "map key (filter (\<lambda>x. key x = k \<and> P x) xs) =
        map (\<lambda>x. k) (filter (\<lambda>x. key x = k \<and> P x) xs)"
    by (rule map_cong) auto
  then show ?thesis
    using filter_key_distinct [OF assms, of k k P] by simp
qed

lemma distinct_fst_of_pairs:
  assumes "distinct (map (\<lambda>x. (f x, h x)) xs)"
  shows "distinct (map f (filter (\<lambda>x. h x = k) xs))"
  using assms by (induction xs) (auto simp: image_iff)

lemma concat_if_const:
  "concat (map (\<lambda>g. if B then [f g] else []) xs) = (if B then map f xs else [])"
  by (induction xs) simp_all

lemma find_distinct_member:
  "distinct (map key xs) \<Longrightarrow> x \<in> set xs \<Longrightarrow> find (\<lambda>y. key y = key x) xs = Some x"
  by (induction xs) (auto simp: image_iff)


lemma fresh_find_append:
  "k \<notin> set (map key xs) \<Longrightarrow> find (\<lambda>x. key x = k) (xs @ ys) = find (\<lambda>x. key x = k) ys"
  by (induction xs) auto





lemma delete_first_distinct:
  "distinct (map key xs) \<Longrightarrow> delete_first (\<lambda>x. key x = k) xs = filter (\<lambda>x. key x \<noteq> k) xs"
proof (induction xs)
  case Nil
  then show ?case by simp
next
  case (Cons x xs)
  show ?case
  proof (cases "key x = k")
    case True
    from Cons.prems have "key x \<notin> key ` set xs" by simp
    with True have "\<forall>y \<in> set xs. key y \<noteq> k" by (metis imageI)
    then have "filter (\<lambda>x. key x \<noteq> k) xs = xs" by (simp add: filter_id_conv)
    with True show ?thesis by simp
  next
    case False
    with Cons show ?thesis by simp
  qed
qed

lemma delete_first_absent: "\<forall>x \<in> set xs. \<not> P x \<Longrightarrow> delete_first P xs = xs"
  by (induction xs) simp_all

section \<open>The aggregation pipelines in closed form\<close>

lemma unwind_Nil: "unwind [] = []"
  by (simp add: unwind_def)

lemma unwind_Cons: "unwind ((r, xs) # rows) = map (\<lambda>x. (r, x)) xs @ unwind rows"
  by (simp add: unwind_def)

lemma unwind_append: "unwind (xs @ ys) = unwind xs @ unwind ys"
  by (simp add: unwind_def)

lemma set_unwind: "set (unwind rows) = {(r, x). \<exists>xs. (r, xs) \<in> set rows \<and> x \<in> set xs}"
  by (auto simp: unwind_def)

lemma one_unwind:
  "map (\<lambda>(g, ms). F g ms) (map (\<lambda>(m, g). (g, J m)) (unwind (map (\<lambda>m. (m, L m)) xs))) =
     concat (map (\<lambda>m. map (\<lambda>g. F g (J m)) (L m)) xs)"
  by (induction xs) (simp_all add: unwind_Nil unwind_Cons)

lemma unwind_inner:
  "map F (unwind (map (\<lambda>g. (g, j)) gs)) = concat (map (\<lambda>g. map (\<lambda>m. F (g, m)) j) gs)"
  by (induction gs) (simp_all add: unwind_Nil unwind_Cons)

lemma two_unwinds:
  "map F (unwind (map (\<lambda>(a, g). (g, J a)) (unwind (map (\<lambda>a. (a, L a)) xs)))) =
     concat (map (\<lambda>a. concat (map (\<lambda>g. map (\<lambda>m. F (g, m)) (J a)) (L a))) xs)"
  by (induction xs)
     (simp_all add: unwind_Nil unwind_Cons unwind_append unwind_inner map_concat comp_def)

lemma findAll_pipeline_concat:
  "findAll_pipeline uid d =
     concat (map (\<lambda>m. map (\<lambda>g. project_members g (lookup_members (m_groupId m) d))
                        (filter (\<lambda>g. g_id g = m_groupId m \<and> matches_null (g_appid g)) (c_Group d)))
               (filter (\<lambda>m. m_uid m = uid) (c_GroupMember d)))"
  unfolding findAll_pipeline_def Let_def one_unwind
  by (simp add: conj_commute)

lemma findAll_pipeline_set:
  "set (findAll_pipeline uid d) =
     {project_members g (lookup_members (m_groupId m) d) | g m.
        m \<in> set (c_GroupMember d) \<and> m_uid m = uid
        \<and> g \<in> set (c_Group d) \<and> g_id g = m_groupId m \<and> matches_null (g_appid g)}"
  unfolding findAll_pipeline_concat by auto

lemma findAll_ids:
  assumes "distinct (map g_id (c_Group d))"
  shows "map r_id (findAll_pipeline uid d) =
         filter (\<lambda>k. \<exists>g \<in> set (c_Group d). g_id g = k \<and> matches_null (g_appid g))
           (map m_groupId (filter (\<lambda>m. m_uid m = uid) (c_GroupMember d)))"
proof -
  have gen: "map r_id (concat (map (\<lambda>m. map (\<lambda>g. project_members g (J m))
                        (filter (\<lambda>g. g_id g = m_groupId m \<and> matches_null (g_appid g)) (c_Group d))) ms))
           = filter (\<lambda>k. \<exists>g \<in> set (c_Group d). g_id g = k \<and> matches_null (g_appid g))
               (map m_groupId ms)" for J ms
    by (induction ms)
       (simp_all add: project_members_def comp_def map_key_filter_distinct [OF assms])
  show ?thesis
    unfolding findAll_pipeline_concat by (rule gen)
qed

lemma findGroupsByAppidAndUid_pipeline_concat:
  "findGroupsByAppidAndUid_pipeline appid uid d =
     concat (map (\<lambda>a. concat (map (\<lambda>g. map (\<lambda>m. project_role g (m_role m))
                       (filter (\<lambda>m. m_groupId m = a_groupId a \<and> m_uid m = uid) (c_GroupMember d)))
                     (filter (\<lambda>g. g_id g = a_groupId a) (c_Group d))))
               (filter (\<lambda>a. a_appid a = Str appid) (c_GroupApplication d)))"
  unfolding findGroupsByAppidAndUid_pipeline_def Let_def two_unwinds by simp

lemma findGroupsByAppidAndUid_pipeline_set:
  "set (findGroupsByAppidAndUid_pipeline appid uid d) =
     {project_role g (m_role m) | a g m. a \<in> set (c_GroupApplication d) \<and> a_appid a = Str appid
        \<and> g \<in> set (c_Group d) \<and> g_id g = a_groupId a
        \<and> m \<in> set (c_GroupMember d) \<and> m_groupId m = a_groupId a \<and> m_uid m = uid}"
  unfolding findGroupsByAppidAndUid_pipeline_concat by auto

lemma findGroupsByAppidAndUid_ids:
  assumes gd: "distinct (map g_id (c_Group d))"
    and md: "distinct (map (\<lambda>m. (m_groupId m, m_uid m)) (c_GroupMember d))"
  shows "map w_id (findGroupsByAppidAndUid_pipeline appid uid d) =
         filter (\<lambda>k. (\<exists>g \<in> set (c_Group d). g_id g = k)
                    \<and> (\<exists>m \<in> set (c_GroupMember d). m_groupId m = k \<and> m_uid m = uid))
           (map a_groupId (filter (\<lambda>a. a_appid a = Str appid) (c_GroupApplication d)))"
proof -
  have mem: "map (\<lambda>m. c) (filter (\<lambda>m. m_groupId m = k \<and> m_uid m = uid) (c_GroupMember d)) =
      (if \<exists>m \<in> set (c_GroupMember d). m_groupId m = k \<and> m_uid m = uid then [c] else [])"
    for c :: ObjectId and k
    using filter_key_distinct [OF md, of c "(k, uid)" "\<lambda>_. True"] by simp
  have grp: "map g_id (filter (\<lambda>g. g_id g = k) (c_Group d)) =
      (if \<exists>g \<in> set (c_Group d). g_id g = k then [k] else [])" for k
    using map_key_filter_distinct [OF gd, of k "\<lambda>_. True"] by simp
  have inner: "map w_id (concat (map (\<lambda>g. map (\<lambda>m. project_role g (m_role m))
                       (filter (\<lambda>m. m_groupId m = k \<and> m_uid m = uid) (c_GroupMember d)))
                     (filter (\<lambda>g. g_id g = k) (c_Group d))))
        = (if (\<exists>g \<in> set (c_Group d). g_id g = k)
            \<and> (\<exists>m \<in> set (c_GroupMember d). m_groupId m = k \<and> m_uid m = uid) then [k] else [])"
    for k
  proof -
    have "map w_id (concat (map (\<lambda>g. map (\<lambda>m. project_role g (m_role m))
                       (filter (\<lambda>m. m_groupId m = k \<and> m_uid m = uid) (c_GroupMember d)))
                     (filter (\<lambda>g. g_id g = k) (c_Group d))))
        = concat (map (\<lambda>g. map (\<lambda>m. g_id g)
                       (filter (\<lambda>m. m_groupId m = k \<and> m_uid m = uid) (c_GroupMember d)))
                     (filter (\<lambda>g. g_id g = k) (c_Group d)))"
      by (simp add: map_concat comp_def project_role_def)
    also have "\<dots> = (if \<exists>m \<in> set (c_GroupMember d). m_groupId m = k \<and> m_uid m = uid
                     then map g_id (filter (\<lambda>g. g_id g = k) (c_Group d)) else [])"
      unfolding mem by (rule concat_if_const)
    finally show ?thesis by (simp add: grp)
  qed
  have gen: "map w_id (concat (map (\<lambda>a. concat (map (\<lambda>g. map (\<lambda>m. project_role g (m_role m))
                       (filter (\<lambda>m. m_groupId m = a_groupId a \<and> m_uid m = uid) (c_GroupMember d)))
                     (filter (\<lambda>g. g_id g = a_groupId a) (c_Group d)))) xs))
      = filter (\<lambda>k. (\<exists>g \<in> set (c_Group d). g_id g = k)
                    \<and> (\<exists>m \<in> set (c_GroupMember d). m_groupId m = k \<and> m_uid m = uid))
           (map a_groupId xs)" for xs
  proof (induction xs)
    case Nil
    show ?case by simp
  next
    case (Cons a xs)
    show ?case
      using Cons.IH inner [of "a_groupId a"] by simp
  qed
  show ?thesis
    unfolding findGroupsByAppidAndUid_pipeline_concat by (rule gen)
qed

lemma findOneWithRole_pipeline_set:
  "set (findOneWithRole_pipeline groupId uid d) =
     {project_role g (m_role m) | m g. m \<in> set (c_GroupMember d) \<and> g \<in> set (c_Group d)
        \<and> m_groupId m = groupId \<and> m_uid m = uid \<and> g_id g = groupId}"
  by (auto simp: findOneWithRole_pipeline_def set_unwind Let_def image_iff)

section \<open>The claims about the queries\<close>

text \<open>
  Claim C3. When the aggregation runs, \<open>findAll uid\<close> returns rows whose group ids are
  exactly the ids of the groups in which the user has a membership row and whose \<open>Group\<close>
  document exists with \<open>appid\<close> missing or null; a membership row whose group is missing or
  carries an application id contributes nothing. Under the keys of the data model
  (\<open>_id\<close> unique in \<open>Group\<close>, at most one membership row per group and user) no group
  appears twice. Every row carries the id, name, creation and update time of its group and,
  as \<open>members\<close>, the \<open>{role, uid}\<close> pair of every membership row of that group.
\<close>

theorem findAll_lists_plain_groups_of_user:
  assumes ok: "faults ev Aggregate = None"
    and gd: "distinct (map g_id (c_Group d))"
    and md: "distinct (map (\<lambda>m. (m_groupId m, m_uid m)) (c_GroupMember d))"
  shows "\<exists>rows. findAll ev uid d = Inr rows
     \<and> distinct (map r_id rows)
     \<and> set (map r_id rows) =
         {k. (\<exists>m \<in> set (c_GroupMember d). m_uid m = uid \<and> m_groupId m = k)
           \<and> (\<exists>g \<in> set (c_Group d). g_id g = k \<and> (g_appid g = Missing \<or> g_appid g = Null))}
     \<and> (\<forall>r \<in> set rows. \<exists>g \<in> set (c_Group d).
           g_id g = r_id r \<and> r_name r = g_name g \<and> r_createdAt r = g_createdAt g
         \<and> r_updatedAt r = g_updatedAt g
         \<and> r_members r = map (\<lambda>x. \<lparr>v_role = m_role x, v_uid = m_uid x\<rparr>)
                            (filter (\<lambda>x. m_groupId x = r_id r) (c_GroupMember d)))"
proof -
  let ?rows = "findAll_pipeline uid d"
  have null: "matches_null a = (a = Missing \<or> a = Null)" for a
    by (cases a) simp_all
  have r: "findAll ev uid d = Inr ?rows"
    using ok by (simp add: findAll_def)
  have d1: "distinct (map r_id ?rows)"
    unfolding findAll_ids [OF gd]
    by (rule distinct_filter) (rule distinct_fst_of_pairs [OF md])
  have s1: "set (map r_id ?rows) =
         {k. (\<exists>m \<in> set (c_GroupMember d). m_uid m = uid \<and> m_groupId m = k)
           \<and> (\<exists>g \<in> set (c_Group d). g_id g = k \<and> (g_appid g = Missing \<or> g_appid g = Null))}"
    unfolding findAll_ids [OF gd] by (auto simp: null)
  have c1: "\<forall>r \<in> set ?rows. \<exists>g \<in> set (c_Group d).
           g_id g = r_id r \<and> r_name r = g_name g \<and> r_createdAt r = g_createdAt g
         \<and> r_updatedAt r = g_updatedAt g
         \<and> r_members r = map (\<lambda>x. \<lparr>v_role = m_role x, v_uid = m_uid x\<rparr>)
                            (filter (\<lambda>x. m_groupId x = r_id r) (c_GroupMember d))"
    unfolding findAll_pipeline_set by (auto simp: project_members_def lookup_members_def)
  from r d1 s1 c1 show ?thesis by blast
qed

theorem findAll_lists_plain_groups_of_user_witness:
  "\<exists>rows. findAll ex_env 10 ex_db = Inr rows \<and> distinct (map r_id rows)
      \<and> set (map r_id rows) = {1, 4}"
proof -
  have ok: "faults ex_env Aggregate = None"
    by (simp add: ex_env_def)
  have gd: "distinct (map g_id (c_Group ex_db))"
    by (simp add: ex_db_def)
  have md: "distinct (map (\<lambda>m. (m_groupId m, m_uid m)) (c_GroupMember ex_db))"
    by (simp add: ex_db_def)
  have ids: "{k. (\<exists>m \<in> set (c_GroupMember ex_db). m_uid m = 10 \<and> m_groupId m = k)
           \<and> (\<exists>g \<in> set (c_Group ex_db). g_id g = k \<and> (g_appid g = Missing \<or> g_appid g = Null))}
        = {1, 4}"
    by (auto simp: ex_db_def)
  from findAll_lists_plain_groups_of_user [OF ok gd md, of 10] ids
  show ?thesis by auto
qed

text \<open>
  Claim C4. When the aggregation runs, \<open>findGroupsByAppidAndUid appid uid\<close> returns rows
  whose group ids are exactly the ids that have an application record with that
  \<open>appid\<close>, a \<open>Group\<close> document and a membership row of the given user; so a group of the
  application in which the user has no membership row never appears. Under the keys of
  the data model (\<open>_id\<close> unique, one membership row per group and user, one application
  record per group and \<open>appid\<close>) no group appears twice. The role of each row is the role
  of a membership row of the given user in that group.
\<close>

theorem findGroupsByAppidAndUid_own_groups_only:
  assumes ok: "faults ev Aggregate = None"
    and gd: "distinct (map g_id (c_Group d))"
    and md: "distinct (map (\<lambda>m. (m_groupId m, m_uid m)) (c_GroupMember d))"
    and ad: "distinct (map (\<lambda>a. (a_groupId a, a_appid a)) (c_GroupApplication d))"
  shows "\<exists>rows. findGroupsByAppidAndUid ev appid uid d = Inr rows
     \<and> distinct (map w_id rows)
     \<and> set (map w_id rows) =
         {k. (\<exists>a \<in> set (c_GroupApplication d). a_appid a = Str appid \<and> a_groupId a = k)
           \<and> (\<exists>g \<in> set (c_Group d). g_id g = k)
           \<and> (\<exists>m \<in> set (c_GroupMember d). m_groupId m = k \<and> m_uid m = uid)}
     \<and> (\<forall>r \<in> set rows. \<exists>g \<in> set (c_Group d). \<exists>m \<in> set (c_GroupMember d).
           g_id g = w_id r \<and> m_groupId m = w_id r \<and> m_uid m = uid \<and> w_role r = m_role m
         \<and> w_name r = g_name g \<and> w_createdAt r = g_createdAt g
         \<and> w_updatedAt r = g_updatedAt g)"
proof -
  let ?rows = "findGroupsByAppidAndUid_pipeline appid uid d"
  have r: "findGroupsByAppidAndUid ev appid uid d = Inr ?rows"
    using ok by (simp add: findGroupsByAppidAndUid_def)
  have d1: "distinct (map w_id ?rows)"
    unfolding findGroupsByAppidAndUid_ids [OF gd md]
    by (rule distinct_filter) (rule distinct_fst_of_pairs [OF ad])
  have s1: "set (map w_id ?rows) =
         {k. (\<exists>a \<in> set (c_GroupApplication d). a_appid a = Str appid \<and> a_groupId a = k)
           \<and> (\<exists>g \<in> set (c_Group d). g_id g = k)
           \<and> (\<exists>m \<in> set (c_GroupMember d). m_groupId m = k \<and> m_uid m = uid)}"
    unfolding findGroupsByAppidAndUid_ids [OF gd md] by (auto simp: image_iff)
  have c1: "\<forall>r \<in> set ?rows. \<exists>g \<in> set (c_Group d). \<exists>m \<in> set (c_GroupMember d).
           g_id g = w_id r \<and> m_groupId m = w_id r \<and> m_uid m = uid \<and> w_role r = m_role m
         \<and> w_name r = g_name g \<and> w_createdAt r = g_createdAt g
         \<and> w_updatedAt r = g_updatedAt g"
    unfolding findGroupsByAppidAndUid_pipeline_set by (fastforce simp: project_role_def)
  from r d1 s1 c1 show ?thesis by blast
qed

theorem findGroupsByAppidAndUid_own_groups_only_witness:
  "(\<exists>rows. findGroupsByAppidAndUid ex_env ''a1'' 10 ex_db = Inr rows
       \<and> set (map w_id rows) = {2} \<and> (\<forall>r \<in> set rows. w_role r = Owner))
   \<and> (\<exists>rows. findGroupsByAppidAndUid ex_env ''a1'' 11 ex_db = Inr rows
       \<and> set (map w_id rows) = {3} \<and> (\<forall>r \<in> set rows. w_role r = OtherRole 1))"
proof -
  have ok: "faults ex_env Aggregate = None"
    by (simp add: ex_env_def)
  have gd: "distinct (map g_id (c_Group ex_db))"
    by (simp add: ex_db_def)
  have md: "distinct (map (\<lambda>m. (m_groupId m, m_uid m)) (c_GroupMember ex_db))"
    by (simp add: ex_db_def)
  have ad: "distinct (map (\<lambda>a. (a_groupId a, a_appid a)) (c_GroupApplication ex_db))"
    by (simp add: ex_db_def)
  have ids10: "{k. (\<exists>a \<in> set (c_GroupApplication ex_db). a_appid a = Str ''a1'' \<and> a_groupId a = k)
           \<and> (\<exists>g \<in> set (c_Group ex_db). g_id g = k)
           \<and> (\<exists>m \<in> set (c_GroupMember ex_db). m_groupId m = k \<and> m_uid m = 10)} = {2}"
    by (auto simp: ex_db_def)
  have ids11: "{k. (\<exists>a \<in> set (c_GroupApplication ex_db). a_appid a = Str ''a1'' \<and> a_groupId a = k)
           \<and> (\<exists>g \<in> set (c_Group ex_db). g_id g = k)
           \<and> (\<exists>m \<in> set (c_GroupMember ex_db). m_groupId m = k \<and> m_uid m = 11)} = {3}"
    by (auto simp: ex_db_def)
  have role10: "m \<in> set (c_GroupMember ex_db) \<Longrightarrow> m_groupId m = 2 \<Longrightarrow> m_uid m = 10
                 \<Longrightarrow> m_role m = Owner" for m
    by (auto simp: ex_db_def)
  have role11: "m \<in> set (c_GroupMember ex_db) \<Longrightarrow> m_groupId m = 3 \<Longrightarrow> m_uid m = 11
                 \<Longrightarrow> m_role m = OtherRole 1" for m
    by (auto simp: ex_db_def)
  from findGroupsByAppidAndUid_own_groups_only [OF ok gd md ad, of "''a1''" 10]
  obtain rows where a: "findGroupsByAppidAndUid ex_env ''a1'' 10 ex_db = Inr rows"
    and b: "set (map w_id rows) = {2}"
    and c: "\<forall>r \<in> set rows. \<exists>g \<in> set (c_Group ex_db). \<exists>m \<in> set (c_GroupMember ex_db).
           g_id g = w_id r \<and> m_groupId m = w_id r \<and> m_uid m = 10 \<and> w_role r = m_role m
         \<and> w_name r = g_name g \<and> w_createdAt r = g_createdAt g
         \<and> w_updatedAt r = g_updatedAt g"
    unfolding ids10 by blast
  have "\<forall>r \<in> set rows. w_role r = Owner"
  proof
    fix r assume r: "r \<in> set rows"
    with b have "w_id r = 2" by auto
    with c r role10 show "w_role r = Owner" by metis
  qed
  with a b have first: "\<exists>rows. findGroupsByAppidAndUid ex_env ''a1'' 10 ex_db = Inr rows
       \<and> set (map w_id rows) = {2} \<and> (\<forall>r \<in> set rows. w_role r = Owner)"
    by blast
  from findGroupsByAppidAndUid_own_groups_only [OF ok gd md ad, of "''a1''" 11]
  obtain rows' where a': "findGroupsByAppidAndUid ex_env ''a1'' 11 ex_db = Inr rows'"
    and b': "set (map w_id rows') = {3}"
    and c': "\<forall>r \<in> set rows'. \<exists>g \<in> set (c_Group ex_db). \<exists>m \<in> set (c_GroupMember ex_db).
           g_id g = w_id r \<and> m_groupId m = w_id r \<and> m_uid m = 11 \<and> w_role r = m_role m
         \<and> w_name r = g_name g \<and> w_createdAt r = g_createdAt g
         \<and> w_updatedAt r = g_updatedAt g"
    unfolding ids11 by blast
  have "\<forall>r \<in> set rows'. w_role r = OtherRole 1"
  proof
    fix r assume r: "r \<in> set rows'"
    with b' have "w_id r = 3" by auto
    with c' r role11 show "w_role r = OtherRole 1" by metis
  qed
  with a' b' have second: "\<exists>rows. findGroupsByAppidAndUid ex_env ''a1'' 11 ex_db = Inr rows
       \<and> set (map w_id rows) = {3} \<and> (\<forall>r \<in> set rows. w_role r = OtherRole 1)"
    by blast
  from first second show ?thesis by blast
qed

text \<open>
  Claim C5. When the aggregation runs, \<open>findOneWithRole groupId uid\<close> returns a value and
  not an error; the value is absent exactly when the user has no membership row for the
  group or no \<open>Group\<close> document has that id (so a dangling membership row gives absent);
  a row that is returned has the id of the group, the fields of a \<open>Group\<close> document with
  that id and the role of a membership row of that user in that group. The result type
  holds at most one row.
\<close>

theorem findOneWithRole_absent_or_joined:
  assumes ok: "faults ev Aggregate = None"
  shows "(\<exists>v. findOneWithRole ev groupId uid d = Inr v)
       \<and> ((findOneWithRole ev groupId uid d = Inr None) =
           (\<not> (\<exists>m \<in> set (c_GroupMember d). m_groupId m = groupId \<and> m_uid m = uid)
            \<or> \<not> (\<exists>g \<in> set (c_Group d). g_id g = groupId)))
       \<and> (\<forall>r. findOneWithRole ev groupId uid d = Inr (Some r) \<longrightarrow>
           (\<exists>m \<in> set (c_GroupMember d). \<exists>g \<in> set (c_Group d).
              m_groupId m = groupId \<and> m_uid m = uid \<and> g_id g = groupId
              \<and> w_id r = groupId \<and> w_name r = g_name g \<and> w_createdAt r = g_createdAt g
              \<and> w_updatedAt r = g_updatedAt g \<and> w_role r = m_role m))"
proof -
  let ?rows = "findOneWithRole_pipeline groupId uid d"
  have s: "set ?rows =
     {project_role g (m_role m) | m g. m \<in> set (c_GroupMember d) \<and> g \<in> set (c_Group d)
        \<and> m_groupId m = groupId \<and> m_uid m = uid \<and> g_id g = groupId}"
    by (rule findOneWithRole_pipeline_set)
  have v: "\<exists>v. findOneWithRole ev groupId uid d = Inr v"
    using ok by (simp add: findOneWithRole_def)
  have "(findOneWithRole ev groupId uid d = Inr None) = (?rows = [])"
    using ok by (simp add: findOneWithRole_def split: list.splits)
  also have "\<dots> = (set ?rows = {})" by simp
  also have "\<dots> = (\<not> (\<exists>m \<in> set (c_GroupMember d). m_groupId m = groupId \<and> m_uid m = uid)
            \<or> \<not> (\<exists>g \<in> set (c_Group d). g_id g = groupId))"
    unfolding s by blast
  finally have none: "(findOneWithRole ev groupId uid d = Inr None) =
           (\<not> (\<exists>m \<in> set (c_GroupMember d). m_groupId m = groupId \<and> m_uid m = uid)
            \<or> \<not> (\<exists>g \<in> set (c_Group d). g_id g = groupId))" .
  have some: "\<forall>r. findOneWithRole ev groupId uid d = Inr (Some r) \<longrightarrow>
           (\<exists>m \<in> set (c_GroupMember d). \<exists>g \<in> set (c_Group d).
              m_groupId m = groupId \<and> m_uid m = uid \<and> g_id g = groupId
              \<and> w_id r = groupId \<and> w_name r = g_name g \<and> w_createdAt r = g_createdAt g
              \<and> w_updatedAt r = g_updatedAt g \<and> w_role r = m_role m)"
  proof (intro allI impI)
    fix r
    assume "findOneWithRole ev groupId uid d = Inr (Some r)"
    then have "r \<in> set ?rows"
      using ok by (auto simp: findOneWithRole_def split: list.splits)
    then obtain m g where "m \<in> set (c_GroupMember d)" "g \<in> set (c_Group d)"
      "m_groupId m = groupId" "m_uid m = uid" "g_id g = groupId" "r = project_role g (m_role m)"
      unfolding s by blast
    then show "\<exists>m \<in> set (c_GroupMember d). \<exists>g \<in> set (c_Group d).
              m_groupId m = groupId \<and> m_uid m = uid \<and> g_id g = groupId
              \<and> w_id r = groupId \<and> w_name r = g_name g \<and> w_createdAt r = g_createdAt g
              \<and> w_updatedAt r = g_updatedAt g \<and> w_role r = m_role m"
      by (auto simp: project_role_def)
  qed
  from v none some show ?thesis by blast
qed

theorem findOneWithRole_absent_or_joined_witness:
  "findOneWithRole ex_env 9 10 ex_db = Inr None
   \<and> findOneWithRole ex_env 3 10 ex_db = Inr None
   \<and> (\<exists>r. findOneWithRole ex_env 1 11 ex_db = Inr (Some r))"
proof -
  have ok: "faults ex_env Aggregate = None"
    by (simp add: ex_env_def)
  have dangling: "\<not> (\<exists>g \<in> set (c_Group ex_db). g_id g = 9)"
    by (simp add: ex_db_def)
  have stranger: "\<not> (\<exists>m \<in> set (c_GroupMember ex_db). m_groupId m = 3 \<and> m_uid m = 10)"
    by (simp add: ex_db_def)
  have member: "(\<exists>m \<in> set (c_GroupMember ex_db). m_groupId m = 1 \<and> m_uid m = 11)
              \<and> (\<exists>g \<in> set (c_Group ex_db). g_id g = 1)"
    by (simp add: ex_db_def)
  from findOneWithRole_absent_or_joined [OF ok, of 9 10 ex_db] dangling
  have a: "findOneWithRole ex_env 9 10 ex_db = Inr None" by blast
  from findOneWithRole_absent_or_joined [OF ok, of 3 10 ex_db] stranger
  have b: "findOneWithRole ex_env 3 10 ex_db = Inr None" by blast
  from findOneWithRole_absent_or_joined [OF ok, of 1 11 ex_db] member
  have "findOneWithRole ex_env 1 11 ex_db \<noteq> Inr None"
    and "\<exists>v. findOneWithRole ex_env 1 11 ex_db = Inr v" by blast+
  then have c: "\<exists>r. findOneWithRole ex_env 1 11 ex_db = Inr (Some r)"
    by (metis option.exhaust)
  from a b c show ?thesis by blast
qed

text \<open>
  Claim C7. When the count runs, \<open>countGroups uid\<close> is the number of \<open>Group\<close> documents
  (counted by position in the collection) whose \<open>createdBy\<close> is \<open>uid\<close> and whose \<open>appid\<close>
  key is missing; adding a group created by the same user with an application id leaves
  the count as it was.
\<close>

theorem countGroups_counts_unscoped_created:
  assumes ok: "faults ev CountDocuments = None"
  shows "countGroups ev uid d =
         Inr (card {i. i < length (c_Group d) \<and> g_createdBy (c_Group d ! i) = Val uid
                      \<and> g_appid (c_Group d ! i) = Missing})
       \<and> (\<forall>g a. g_createdBy g = Val uid \<and> g_appid g = Str a \<longrightarrow>
            countGroups ev uid (d\<lparr>c_Group := c_Group d @ [g]\<rparr>) = countGroups ev uid d)"
  using ok by (simp add: countGroups_def length_filter_conv_card)

theorem countGroups_counts_unscoped_created_witness:
  "countGroups ex_env 10 ex_db = Inr 1
   \<and> countGroups ex_env 10
       (ex_db\<lparr>c_Group := c_Group ex_db @
          [\<lparr>g_id = 8, g_name = Val ''bound'', g_appid = Str ''a2'', g_createdBy = Val 10,
            g_createdAt = Val 9, g_updatedAt = Val 9\<rparr>]\<rparr>) = Inr 1"
proof -
  have ok: "faults ex_env CountDocuments = None"
    by (simp add: ex_env_def)
  have one: "countGroups ex_env 10 ex_db = Inr 1"
    by (simp add: countGroups_def ex_env_def ex_db_def)
  from countGroups_counts_unscoped_created [OF ok, of 10 ex_db]
  have "countGroups ex_env 10
       (ex_db\<lparr>c_Group := c_Group ex_db @
          [\<lparr>g_id = 8, g_name = Val ''bound'', g_appid = Str ''a2'', g_createdBy = Val 10,
            g_createdAt = Val 9, g_updatedAt = Val 9\<rparr>]\<rparr>) = countGroups ex_env 10 ex_db"
    by simp
  with one show ?thesis by simp
qed



section \<open>Running create and delete\<close>

lemmas io_defs = bind_io_def catch_io_def finally_io_def call_io_def ret_def throw_def
  modify_def current_def startTransaction_def commitTransaction_def abortTransaction_def
  endSession_def inTransaction_def startSession_def attemptTransaction_def

lemmas callback_defs = create_callback_def insertOne_Group_def addOne_def
  append_application_def findOne_def

lemmas delete_defs = delete_def deleteOne_Group_def removeAll_members_def
  deleteManyInviteCode_def removeAll_applications_def findOne_def

text \<open>One attempt, started outside a transaction: what it leaves behind.\<close>

lemma attempt_Inr:
  assumes "attemptTransaction a (create_callback name createdBy appid a) w = (Inr r, w')"
    and "txn (sess w) \<noteq> TRANSACTION_IN_PROGRESS"
  shows "newObjectId a \<notin> set (map g_id (c_Group (store w)))
       \<and> store w' = created a name createdBy appid (store w)
       \<and> r = find (\<lambda>g. g_id g = newObjectId a)
               (c_Group (created a name createdBy appid (store w)))
       \<and> txn (sess w') = TRANSACTION_COMMITTED \<and> hasEnded (sess w') = hasEnded (sess w)"
  using assms
  by (auto simp: callback_defs io_defs created_def new_group_def
           split: option.splits if_splits)

lemma attempt_Inl:
  assumes "attemptTransaction a (create_callback name createdBy appid a) w = (Inl e, w')"
    and "txn (sess w) \<noteq> TRANSACTION_IN_PROGRESS"
  shows "store w' = store w \<and> txn (sess w') \<noteq> TRANSACTION_IN_PROGRESS
       \<and> hasEnded (sess w') = hasEnded (sess w)"
  using assms
  by (auto simp: callback_defs io_defs split: option.splits if_splits)

lemma attempt_fault:
  assumes "first_fault a [InsertOne, AddOne, Append, FindOne] = Some e"
    and "newObjectId a \<notin> set (map g_id (c_Group (store w)))"
    and "txn (sess w) \<noteq> TRANSACTION_IN_PROGRESS"
  shows "\<exists>w'. attemptTransaction a (create_callback name createdBy appid a) w = (Inl e, w')
           \<and> store w' = store w \<and> txn (sess w') = TRANSACTION_ABORTED
           \<and> hasEnded (sess w') = hasEnded (sess w)"
  using assms
  by (auto simp: callback_defs io_defs split: option.splits if_splits)

lemma attempt_ok:
  assumes "first_fault a [InsertOne, AddOne, Append, FindOne, CommitTransaction] = None"
    and "newObjectId a \<notin> set (map g_id (c_Group (store w)))"
    and "txn (sess w) \<noteq> TRANSACTION_IN_PROGRESS"
  shows "\<exists>w'. attemptTransaction a (create_callback name createdBy appid a) w =
           (Inr (find (\<lambda>g. g_id g = newObjectId a)
                   (c_Group (created a name createdBy appid (store w)))), w')
           \<and> store w' = created a name createdBy appid (store w)"
  using assms
  by (auto simp: callback_defs io_defs created_def new_group_def
           split: option.splits if_splits)

text \<open>All attempts: induction on the runs that are left.\<close>

lemma withTransaction_Inr:
  assumes "withTransaction a later (create_callback name createdBy appid) w = (Inr r, w')"
    and "txn (sess w) \<noteq> TRANSACTION_IN_PROGRESS"
  shows "\<exists>b \<in> set (a # later).
           newObjectId b \<notin> set (map g_id (c_Group (store w)))
         \<and> store w' = created b name createdBy appid (store w)
         \<and> r = find (\<lambda>g. g_id g = newObjectId b)
                 (c_Group (created b name createdBy appid (store w)))
         \<and> txn (sess w') = TRANSACTION_COMMITTED"
  using assms
proof (induction later arbitrary: a w)
  case Nil
  then show ?case
    using attempt_Inr [of a name createdBy appid w r w'] by simp
next
  case (Cons a' later)
  show ?case
  proof (cases "attemptTransaction a (create_callback name createdBy appid a) w")
    case (Pair res w1)
    show ?thesis
    proof (cases res)
      case (Inr x)
      with Pair Cons.prems have "attemptTransaction a (create_callback name createdBy appid a) w
          = (Inr r, w')"
        by simp
      from attempt_Inr [OF this Cons.prems(2)] show ?thesis by simp
    next
      case (Inl e)
      with Pair have att: "attemptTransaction a (create_callback name createdBy appid a) w
          = (Inl e, w1)"
        by simp
      from attempt_Inl [OF att Cons.prems(2)] have st: "store w1 = store w"
        and tx: "txn (sess w1) \<noteq> TRANSACTION_IN_PROGRESS"
        by simp_all
      from Cons.prems(1) att have
        "withTransaction a' later (create_callback name createdBy appid) w1 = (Inr r, w')"
        by (simp split: if_splits)
      from Cons.IH [OF this tx] st show ?thesis by auto
    qed
  qed
qed

lemma withTransaction_hasEnded:
  assumes "txn (sess w) \<noteq> TRANSACTION_IN_PROGRESS"
  shows "hasEnded (sess (snd (withTransaction a later (create_callback name createdBy appid) w)))
         = hasEnded (sess w)"
  using assms
proof (induction later arbitrary: a w)
  case Nil
  obtain res w' where att:
    "attemptTransaction a (create_callback name createdBy appid a) w = (res, w')"
    by (cases "attemptTransaction a (create_callback name createdBy appid a) w")
  with attempt_Inr [of a name createdBy appid w _ w'] attempt_Inl [of a name createdBy appid w _ w']
    Nil show ?case
    by (cases res) auto
next
  case (Cons a' later)
  obtain res w1 where att:
    "attemptTransaction a (create_callback name createdBy appid a) w = (res, w1)"
    by (cases "attemptTransaction a (create_callback name createdBy appid a) w")
  show ?case
  proof (cases res)
    case (Inr x)
    with att attempt_Inr [of a name createdBy appid w x w1] Cons.prems show ?thesis by simp
  next
    case (Inl e1)
    with att attempt_Inl [of a name createdBy appid w e1 w1] Cons.prems
    have h: "hasEnded (sess w1) = hasEnded (sess w)"
      and tx: "txn (sess w1) \<noteq> TRANSACTION_IN_PROGRESS"
      by simp_all
    from Cons.IH [OF tx, of a'] h att Inl show ?thesis by simp
  qed
qed

lemma create_unfold:
  "create ev later name createdBy appid d =
     (case withTransaction ev later (create_callback name createdBy appid)
             \<lparr>store = d, sess = startSession\<rparr> of
        (res, w) \<Rightarrow>
          (res, w\<lparr>sess := (sess w)\<lparr>
                   txn := (if txn (sess w) = TRANSACTION_IN_PROGRESS
                           then TRANSACTION_ABORTED else txn (sess w)),
                   hasEnded := True\<rparr>\<rparr>))"
  by (simp add: create_def finally_io_def catch_io_def throw_def endSession_def
        inTransaction_def split: prod.splits sum.splits)

lemma create_Inr:
  assumes "create ev later name createdBy appid d = (Inr r, w)"
  shows "\<exists>b \<in> set (ev # later).
           newObjectId b \<notin> set (map g_id (c_Group d))
         \<and> store w = created b name createdBy appid d
         \<and> r = find (\<lambda>g. g_id g = newObjectId b) (c_Group (created b name createdBy appid d))
         \<and> txn (sess w) = TRANSACTION_COMMITTED"
proof -
  obtain res w0 where wt: "withTransaction ev later (create_callback name createdBy appid)
             \<lparr>store = d, sess = startSession\<rparr> = (res, w0)"
    by (cases "withTransaction ev later (create_callback name createdBy appid)
             \<lparr>store = d, sess = startSession\<rparr>")
  with assms have res: "res = Inr r" and w: "store w = store w0" "txn (sess w0) = TRANSACTION_COMMITTED
      \<longrightarrow> txn (sess w) = TRANSACTION_COMMITTED"
    by (auto simp: create_unfold)
  from withTransaction_Inr [OF wt [unfolded res]] w show ?thesis
    by (auto simp: startSession_def)
qed

lemma create_fault:
  assumes f: "first_fault ev [InsertOne, AddOne, Append, FindOne] = Some e"
    and stop: "\<not> hasTransientLabel e \<or> later = []"
    and fg: "newObjectId ev \<notin> set (map g_id (c_Group d))"
  shows "\<exists>w. create ev later name createdBy appid d = (Inl e, w) \<and> store w = d
          \<and> txn (sess w) = TRANSACTION_ABORTED \<and> hasEnded (sess w)"
proof -
  let ?w = "\<lparr>store = d, sess = startSession\<rparr>"
  have "newObjectId ev \<notin> set (map g_id (c_Group (store ?w)))"
    and "txn (sess ?w) \<noteq> TRANSACTION_IN_PROGRESS"
    using fg by (simp_all add: startSession_def)
  from attempt_fault [OF f this, of name createdBy appid] obtain w' where
    att: "attemptTransaction ev (create_callback name createdBy appid ev) ?w = (Inl e, w')"
    and st: "store w' = d" and tx: "txn (sess w') = TRANSACTION_ABORTED"
    by auto
  from att stop have "withTransaction ev later (create_callback name createdBy appid) ?w
      = (Inl e, w')"
    by (cases later) auto
  with st tx show ?thesis
    by (simp add: create_unfold)
qed

lemma create_ok:
  assumes n: "first_fault ev [InsertOne, AddOne, Append, FindOne, CommitTransaction] = None"
    and fg: "newObjectId ev \<notin> set (map g_id (c_Group d))"
  shows "\<exists>w. create ev later name createdBy appid d =
          (Inr (find (\<lambda>g. g_id g = newObjectId ev) (c_Group (created ev name createdBy appid d))), w)
          \<and> store w = created ev name createdBy appid d"
proof -
  let ?w = "\<lparr>store = d, sess = startSession\<rparr>"
  have "newObjectId ev \<notin> set (map g_id (c_Group (store ?w)))"
    and "txn (sess ?w) \<noteq> TRANSACTION_IN_PROGRESS"
    using fg by (simp_all add: startSession_def)
  from attempt_ok [OF n this, of name createdBy appid] obtain w' where
    att: "attemptTransaction ev (create_callback name createdBy appid ev) ?w =
           (Inr (find (\<lambda>g. g_id g = newObjectId ev)
                   (c_Group (created ev name createdBy appid d))), w')"
    and st: "store w' = created ev name createdBy appid d"
    by auto
  from att have "withTransaction ev later (create_callback name createdBy appid) ?w
      = (Inr (find (\<lambda>g. g_id g = newObjectId ev)
                   (c_Group (created ev name createdBy appid d))), w')"
    by (cases later) auto
  with st show ?thesis
    by (simp add: create_unfold)
qed




text \<open>The life of the session in \<open>create\<close>: it is ended on every path.\<close>

lemma create_ends_session: "hasEnded (sess (snd (create ev later name createdBy appid d)))"
  by (simp add: create_unfold split: prod.splits)

lemma delete_Inr:
  assumes "delete ev groupId session d = (Inr r, w)"
  shows "r = find (\<lambda>g. g_id g = groupId) (c_Group d) \<and> store w = purged groupId d
       \<and> txn (sess w) = TRANSACTION_COMMITTED"
  using assms
  by (auto simp: delete_defs io_defs purged_def Let_def
           split: option.splits if_splits TxnState.splits)

lemma delete_fault:
  assumes "faults ev FindOne = None"
    and "first_fault ev [DeleteOne, RemoveAllMembers, DeleteManyInviteCode,
           RemoveAllApplications] = Some e"
  shows "\<exists>w. delete ev groupId None d = (Inl e, w) \<and> store w = d
          \<and> txn (sess w) = TRANSACTION_ABORTED"
  using assms
  by (auto simp: delete_defs io_defs Let_def split: option.splits if_splits)

lemma delete_ok:
  assumes "first_fault ev [FindOne, DeleteOne, RemoveAllMembers, DeleteManyInviteCode,
           RemoveAllApplications, CommitTransaction] = None"
  shows "\<exists>w. delete ev groupId None d = (Inr (find (\<lambda>g. g_id g = groupId) (c_Group d)), w)
           \<and> store w = purged groupId d"
  using assms
  by (auto simp: delete_defs io_defs Let_def purged_def split: option.splits if_splits)

text \<open>
  A rejected commit: the session is in state committed when the \<open>catch\<close> calls
  \<open>abortTransaction\<close>, which therefore throws; its error replaces the error of the commit.
\<close>

lemma delete_commit_rejected:
  assumes "first_fault ev [FindOne, DeleteOne, RemoveAllMembers, DeleteManyInviteCode,
             RemoveAllApplications] = None"
    and "faults ev CommitTransaction = Some e"
  shows "\<exists>w. delete ev groupId None d =
           (Inl (MongoTransactionError
                   ''Cannot call abortTransaction after calling commitTransaction''), w)
          \<and> txn (sess w) = TRANSACTION_COMMITTED \<and> hasEnded (sess w)"
  using assms
  by (auto simp: delete_defs io_defs Let_def split: option.splits if_splits)

text \<open>The life of the session in \<open>delete\<close>: a session of the caller keeps its \<open>hasEnded\<close>, on every path.\<close>

lemma delete_borrowed_session_not_ended:
  "hasEnded (sess (snd (delete ev groupId (Some s) d))) = hasEnded s"
  by (auto simp: delete_defs io_defs Let_def
           split: option.splits if_splits TxnState.splits)

text \<open>A session that \<open>delete\<close> started is ended on every path on which the first read returns.\<close>

lemma delete_own_session_ended:
  "faults ev FindOne = None \<Longrightarrow> hasEnded (sess (snd (delete ev groupId None d)))"
  by (auto simp: delete_defs io_defs Let_def
           split: option.splits if_splits TxnState.splits)

text \<open>When the first read throws, the \<open>try\<close> is never entered and the session stays open.\<close>

lemma delete_preread_throws:
  "faults ev FindOne = Some e \<Longrightarrow>
   delete ev groupId None d = (Inl e, \<lparr>store = d, sess = startSession\<rparr>)"
  by (simp add: delete_defs io_defs Let_def)

lemma purged_absent:
  assumes "\<forall>g \<in> set (c_Group d). g_id g \<noteq> k" "\<forall>m \<in> set (c_GroupMember d). m_groupId m \<noteq> k"
    "\<forall>i \<in> set (c_GroupInvite d). i_groupId i \<noteq> k"
    "\<forall>a \<in> set (c_GroupApplication d). a_groupId a \<noteq> k"
  shows "purged k d = d"
  using assms by (simp add: purged_def delete_first_absent filter_id_conv)

lemma purged_filter:
  assumes "distinct (map g_id (c_Group d))"
  shows "c_Group (purged k d) = filter (\<lambda>g. g_id g \<noteq> k) (c_Group d)"
    and "c_GroupMember (purged k d) = filter (\<lambda>m. m_groupId m \<noteq> k) (c_GroupMember d)"
    and "c_GroupInvite (purged k d) = filter (\<lambda>i. i_groupId i \<noteq> k) (c_GroupInvite d)"
    and "c_GroupApplication (purged k d) = filter (\<lambda>a. a_groupId a \<noteq> k) (c_GroupApplication d)"
  using assms by (simp_all add: purged_def delete_first_distinct)

section \<open>The claims about create and delete\<close>




text \<open>
  What holds of \<open>delete groupId\<close> without a session argument, on a store with unique
  \<open>Group\<close> ids. If it returns, it returns the group as it was before the call, and what
  is left of each of the four collections is exactly its rows keyed to other ids. If the
  first read returns and one of the four deletions throws, the caller gets the error of
  the first deletion that threw, the transaction is aborted and the store is as before.
  When nothing rejects, it does return.
\<close>

lemma delete_four_deletions:
  assumes gd: "distinct (map g_id (c_Group d))"
  shows "(\<forall>r w. delete ev groupId None d = (Inr r, w) \<longrightarrow>
            (\<forall>g \<in> set (c_Group d). g_id g = groupId \<longrightarrow> r = Some g)
          \<and> c_Group (store w) = filter (\<lambda>g. g_id g \<noteq> groupId) (c_Group d)
          \<and> c_GroupMember (store w) = filter (\<lambda>m. m_groupId m \<noteq> groupId) (c_GroupMember d)
          \<and> c_GroupInvite (store w) = filter (\<lambda>i. i_groupId i \<noteq> groupId) (c_GroupInvite d)
          \<and> c_GroupApplication (store w) =
              filter (\<lambda>a. a_groupId a \<noteq> groupId) (c_GroupApplication d)
          \<and> filter (\<lambda>g. g_id g = groupId) (c_Group (store w)) = []
          \<and> filter (\<lambda>m. m_groupId m = groupId) (c_GroupMember (store w)) = []
          \<and> filter (\<lambda>i. i_groupId i = groupId) (c_GroupInvite (store w)) = []
          \<and> filter (\<lambda>a. a_groupId a = groupId) (c_GroupApplication (store w)) = [])
       \<and> (\<forall>e. faults ev FindOne = None
              \<and> first_fault ev [DeleteOne, RemoveAllMembers, DeleteManyInviteCode,
                   RemoveAllApplications] = Some e \<longrightarrow>
            (\<exists>w. delete ev groupId None d = (Inl e, w)
                \<and> txn (sess w) = TRANSACTION_ABORTED \<and> store w = d))
       \<and> (first_fault ev [FindOne, DeleteOne, RemoveAllMembers, DeleteManyInviteCode,
              RemoveAllApplications, CommitTransaction] = None \<longrightarrow>
            (\<exists>r w. delete ev groupId None d = (Inr r, w)))"
proof (intro conjI allI impI ballI)
  fix r w
  assume c: "delete ev groupId None d = (Inr r, w)"
  from delete_Inr [OF c] have r: "r = find (\<lambda>g. g_id g = groupId) (c_Group d)"
    and st: "store w = purged groupId d"
    by simp_all
  show "c_Group (store w) = filter (\<lambda>g. g_id g \<noteq> groupId) (c_Group d)"
    and "c_GroupMember (store w) = filter (\<lambda>m. m_groupId m \<noteq> groupId) (c_GroupMember d)"
    and "c_GroupInvite (store w) = filter (\<lambda>i. i_groupId i \<noteq> groupId) (c_GroupInvite d)"
    and "c_GroupApplication (store w) =
              filter (\<lambda>a. a_groupId a \<noteq> groupId) (c_GroupApplication d)"
    unfolding st by (simp_all add: purged_filter [OF gd])
  show "filter (\<lambda>g. g_id g = groupId) (c_Group (store w)) = []"
    and "filter (\<lambda>m. m_groupId m = groupId) (c_GroupMember (store w)) = []"
    and "filter (\<lambda>i. i_groupId i = groupId) (c_GroupInvite (store w)) = []"
    and "filter (\<lambda>a. a_groupId a = groupId) (c_GroupApplication (store w)) = []"
    unfolding st by (simp_all add: purged_filter [OF gd] filter_empty_conv)
  fix g
  assume "g \<in> set (c_Group d)" "g_id g = groupId"
  with find_distinct_member [OF gd, of g] show "r = Some g"
    unfolding r by simp
next
  fix e
  assume "faults ev FindOne = None
              \<and> first_fault ev [DeleteOne, RemoveAllMembers, DeleteManyInviteCode,
                   RemoveAllApplications] = Some e"
  then have a: "faults ev FindOne = None"
    and b: "first_fault ev [DeleteOne, RemoveAllMembers, DeleteManyInviteCode,
                   RemoveAllApplications] = Some e"
    by simp_all
  from delete_fault [OF a b]
  show "\<exists>w. delete ev groupId None d = (Inl e, w)
                \<and> txn (sess w) = TRANSACTION_ABORTED \<and> store w = d"
    by blast
next
  assume "first_fault ev [FindOne, DeleteOne, RemoveAllMembers, DeleteManyInviteCode,
              RemoveAllApplications, CommitTransaction] = None"
  from delete_ok [OF this] show "\<exists>r w. delete ev groupId None d = (Inr r, w)"
    by blast
qed

text \<open>
  Claim C2. The claim holds of a \<open>delete\<close> that returns and of a rejection in one of
  the four deletions. It fails at the last step inside the \<open>try\<close>, the commit (line
  253): a rejected commit leaves the session in state committed, so the
  \<open>abortTransaction\<close> of the \<open>catch\<close> (line 258) throws before \<open>throw err\<close> is reached.
  Here the commit of \<open>delete 1\<close> is rejected with \<open>StorageError 1\<close>: the caller gets the
  error of \<open>abortTransaction\<close> and not the original one, and the transaction is not
  aborted.
\<close>

theorem delete_masks_rejected_commit:
  "first_fault (ex_env_failing CommitTransaction)
       [FindOne, DeleteOne, RemoveAllMembers, DeleteManyInviteCode, RemoveAllApplications,
        CommitTransaction] = Some (StorageError 1)
   \<and> fst (delete (ex_env_failing CommitTransaction) 1 None ex_db)
       = Inl (MongoTransactionError
                ''Cannot call abortTransaction after calling commitTransaction'')
   \<and> txn (sess (snd (delete (ex_env_failing CommitTransaction) 1 None ex_db)))
       = TRANSACTION_COMMITTED"
proof -
  have a: "first_fault (ex_env_failing CommitTransaction)
       [FindOne, DeleteOne, RemoveAllMembers, DeleteManyInviteCode, RemoveAllApplications]
       = None"
    and b: "faults (ex_env_failing CommitTransaction) CommitTransaction = Some (StorageError 1)"
    and c: "first_fault (ex_env_failing CommitTransaction)
       [FindOne, DeleteOne, RemoveAllMembers, DeleteManyInviteCode, RemoveAllApplications,
        CommitTransaction] = Some (StorageError 1)"
    by (simp_all add: ex_env_failing_def ex_env_def)
  from delete_commit_rejected [OF a b, of 1 ex_db] obtain w where
    "delete (ex_env_failing CommitTransaction) 1 None ex_db =
       (Inl (MongoTransactionError
               ''Cannot call abortTransaction after calling commitTransaction''), w)"
    "txn (sess w) = TRANSACTION_COMMITTED"
    by blast
  with c show ?thesis
    by simp
qed

text \<open>
  Claim C6. Let no call reject. If no row of the four collections is keyed to \<open>groupId\<close>,
  \<open>delete groupId\<close> returns absent and the store is as before. Hence, with unique group
  ids, after one \<open>delete groupId\<close> a second one returns absent and changes nothing.
\<close>

theorem delete_absent_is_noop:
  assumes nf: "first_fault ev [FindOne, DeleteOne, RemoveAllMembers, DeleteManyInviteCode,
                 RemoveAllApplications, CommitTransaction] = None"
  shows "((\<forall>g \<in> set (c_Group d). g_id g \<noteq> groupId)
          \<and> (\<forall>m \<in> set (c_GroupMember d). m_groupId m \<noteq> groupId)
          \<and> (\<forall>i \<in> set (c_GroupInvite d). i_groupId i \<noteq> groupId)
          \<and> (\<forall>a \<in> set (c_GroupApplication d). a_groupId a \<noteq> groupId) \<longrightarrow>
            (\<exists>w. delete ev groupId None d = (Inr None, w) \<and> store w = d))
       \<and> (distinct (map g_id (c_Group d)) \<longrightarrow>
            (\<exists>r w w'. delete ev groupId None d = (Inr r, w)
                \<and> delete ev groupId None (store w) = (Inr None, w') \<and> store w' = store w))"
proof (intro conjI impI)
  assume "(\<forall>g \<in> set (c_Group d). g_id g \<noteq> groupId)
          \<and> (\<forall>m \<in> set (c_GroupMember d). m_groupId m \<noteq> groupId)
          \<and> (\<forall>i \<in> set (c_GroupInvite d). i_groupId i \<noteq> groupId)
          \<and> (\<forall>a \<in> set (c_GroupApplication d). a_groupId a \<noteq> groupId)"
  then have g: "\<forall>g \<in> set (c_Group d). g_id g \<noteq> groupId"
    and p: "purged groupId d = d"
    by (simp_all add: purged_absent)
  from g have "find (\<lambda>g. g_id g = groupId) (c_Group d) = None"
    by (simp add: find_None_iff)
  with delete_ok [OF nf, of groupId d] p
  show "\<exists>w. delete ev groupId None d = (Inr None, w) \<and> store w = d"
    by simp
next
  assume gd: "distinct (map g_id (c_Group d))"
  from delete_ok [OF nf, of groupId d] obtain w where
    c: "delete ev groupId None d = (Inr (find (\<lambda>g. g_id g = groupId) (c_Group d)), w)"
    and st: "store w = purged groupId d"
    by blast
  have g: "\<forall>g \<in> set (c_Group (store w)). g_id g \<noteq> groupId"
    and rest: "\<forall>m \<in> set (c_GroupMember (store w)). m_groupId m \<noteq> groupId"
      "\<forall>i \<in> set (c_GroupInvite (store w)). i_groupId i \<noteq> groupId"
      "\<forall>a \<in> set (c_GroupApplication (store w)). a_groupId a \<noteq> groupId"
    unfolding st by (simp_all add: purged_filter [OF gd])
  from g have none: "find (\<lambda>g. g_id g = groupId) (c_Group (store w)) = None"
    by (simp add: find_None_iff)
  from g rest have p: "purged groupId (store w) = store w"
    by (rule purged_absent)
  from delete_ok [OF nf, of groupId "store w"] none p
  obtain w' where "delete ev groupId None (store w) = (Inr None, w')" "store w' = store w"
    by auto
  with c show "\<exists>r w w'. delete ev groupId None d = (Inr r, w)
                \<and> delete ev groupId None (store w) = (Inr None, w') \<and> store w' = store w"
    by blast
qed

theorem delete_absent_is_noop_witness:
  "(\<exists>w. delete ex_env 42 None ex_db = (Inr None, w) \<and> store w = ex_db)
   \<and> (\<exists>r w w'. delete ex_env 1 None ex_db = (Inr r, w)
         \<and> delete ex_env 1 None (store w) = (Inr None, w') \<and> store w' = store w)"
proof -
  have nf: "first_fault ex_env [FindOne, DeleteOne, RemoveAllMembers, DeleteManyInviteCode,
                 RemoveAllApplications, CommitTransaction] = None"
    by (simp add: ex_env_def)
  have absent: "(\<forall>g \<in> set (c_Group ex_db). g_id g \<noteq> 42)
          \<and> (\<forall>m \<in> set (c_GroupMember ex_db). m_groupId m \<noteq> 42)
          \<and> (\<forall>i \<in> set (c_GroupInvite ex_db). i_groupId i \<noteq> 42)
          \<and> (\<forall>a \<in> set (c_GroupApplication ex_db). a_groupId a \<noteq> 42)"
    by (simp add: ex_db_def)
  have gd: "distinct (map g_id (c_Group ex_db))"
    by (simp add: ex_db_def)
  from delete_absent_is_noop [OF nf, of ex_db 42] absent
  have a: "\<exists>w. delete ex_env 42 None ex_db = (Inr None, w) \<and> store w = ex_db"
    by blast
  from delete_absent_is_noop [OF nf, of ex_db 1] gd
  have b: "\<exists>r w w'. delete ex_env 1 None ex_db = (Inr r, w)
         \<and> delete ex_env 1 None (store w) = (Inr None, w') \<and> store w' = store w"
    by blast
  from a b show ?thesis by blast
qed

text \<open>
  Claim C8. Let the client not ignore undefined values (the driver's default). If
  \<open>create\<close> is called without \<open>appid\<close> and returns, it returns the document it
  inserted: the id generated in one of the runs (not used before), the given name and
  creator, that run's clock readings, and the \<open>appid\<close> key present with value null. The
  \<open>Group\<close> collection afterwards is the one before followed by this one document. The
  document passes the filter \<open>{appid: null}\<close> of \<open>findAll\<close>, so \<open>findAll\<close> shows the group to
  every user who has a membership row for it; it fails the filter
  \<open>{appid: {$exists: false}}\<close> of \<open>countGroups\<close>, so \<open>countGroups createdBy\<close> is the same
  before and after (\<open>ev'\<close> is the environment of the later count and list calls). When
  nothing rejects in the first run and its id is not taken, \<open>create\<close> does return.
\<close>

theorem create_plain_group_not_counted:
  assumes iu: "\<forall>a \<in> set (ev # later). \<not> ignoreUndefined a"
  shows "(\<forall>r w. create ev later name createdBy None d = (Inr r, w) \<longrightarrow>
            (\<exists>b \<in> set (ev # later). \<exists>g.
                g = \<lparr>g_id = newObjectId b, g_name = Val name, g_appid = Null,
                     g_createdBy = Val createdBy, g_createdAt = Val (now1 b),
                     g_updatedAt = Val (now2 b)\<rparr>
              \<and> r = Some g
              \<and> newObjectId b \<notin> set (map g_id (c_Group d))
              \<and> c_Group (store w) = c_Group d @ [g]
              \<and> matches_null (g_appid g) \<and> g_appid g \<noteq> Missing
              \<and> countGroups ev' createdBy (store w) = countGroups ev' createdBy d
              \<and> (\<forall>uid. faults ev' Aggregate = None
                    \<and> (\<exists>m \<in> set (c_GroupMember (store w)).
                          m_groupId m = newObjectId b \<and> m_uid m = uid) \<longrightarrow>
                    (\<exists>rows. findAll ev' uid (store w) = Inr rows
                        \<and> newObjectId b \<in> set (map r_id rows)))))
       \<and> (first_fault ev [InsertOne, AddOne, Append, FindOne, CommitTransaction] = None
            \<and> newObjectId ev \<notin> set (map g_id (c_Group d)) \<longrightarrow>
            (\<exists>r w. create ev later name createdBy None d = (Inr r, w)))"
proof (intro conjI allI impI)
  fix r w
  assume c: "create ev later name createdBy None d = (Inr r, w)"
  from create_Inr [OF c] obtain b where b: "b \<in> set (ev # later)"
    and fg: "newObjectId b \<notin> set (map g_id (c_Group d))"
    and st: "store w = created b name createdBy None d"
    and r: "r = find (\<lambda>g. g_id g = newObjectId b) (c_Group (created b name createdBy None d))"
    by blast
  let ?g = "\<lparr>g_id = newObjectId b, g_name = Val name, g_appid = Null,
             g_createdBy = Val createdBy, g_createdAt = Val (now1 b),
             g_updatedAt = Val (now2 b)\<rparr>"
  from iu b have "\<not> ignoreUndefined b" by blast
  then have ng: "new_group b name createdBy None = ?g"
    by (simp add: new_group_def bson_optional_def)
  have rg: "r = Some ?g"
    unfolding r using fresh_find_append [OF fg] ng by (simp add: created_def)
  have grp: "c_Group (store w) = c_Group d @ [?g]"
    unfolding st using ng by (simp add: created_def)
  have cnt: "countGroups ev' createdBy (store w) = countGroups ev' createdBy d"
    by (simp add: countGroups_def grp split: option.splits)
  have lst: "\<forall>uid. faults ev' Aggregate = None
                    \<and> (\<exists>m \<in> set (c_GroupMember (store w)).
                          m_groupId m = newObjectId b \<and> m_uid m = uid) \<longrightarrow>
                    (\<exists>rows. findAll ev' uid (store w) = Inr rows
                        \<and> newObjectId b \<in> set (map r_id rows))"
  proof (intro allI impI)
    fix uid
    assume "faults ev' Aggregate = None
                    \<and> (\<exists>m \<in> set (c_GroupMember (store w)).
                          m_groupId m = newObjectId b \<and> m_uid m = uid)"
    then obtain m where ok: "faults ev' Aggregate = None"
      and m: "m \<in> set (c_GroupMember (store w))" "m_groupId m = newObjectId b" "m_uid m = uid"
      by blast
    have mem: "?g \<in> set (c_Group (store w))"
      by (simp add: grp)
    from m mem
    have "project_members ?g (lookup_members (m_groupId m) (store w))
            \<in> set (findAll_pipeline uid (store w))"
      unfolding findAll_pipeline_set by force
    then have "r_id (project_members ?g (lookup_members (m_groupId m) (store w)))
            \<in> set (map r_id (findAll_pipeline uid (store w)))"
      by (metis image_eqI set_map)
    then have "newObjectId b \<in> set (map r_id (findAll_pipeline uid (store w)))"
      by (simp add: project_members_def)
    with ok show "\<exists>rows. findAll ev' uid (store w) = Inr rows
                        \<and> newObjectId b \<in> set (map r_id rows)"
      by (simp add: findAll_def)
  qed
  from b rg fg grp cnt lst
  show "\<exists>b \<in> set (ev # later). \<exists>g.
                g = \<lparr>g_id = newObjectId b, g_name = Val name, g_appid = Null,
                     g_createdBy = Val createdBy, g_createdAt = Val (now1 b),
                     g_updatedAt = Val (now2 b)\<rparr>
              \<and> r = Some g
              \<and> newObjectId b \<notin> set (map g_id (c_Group d))
              \<and> c_Group (store w) = c_Group d @ [g]
              \<and> matches_null (g_appid g) \<and> g_appid g \<noteq> Missing
              \<and> countGroups ev' createdBy (store w) = countGroups ev' createdBy d
              \<and> (\<forall>uid. faults ev' Aggregate = None
                    \<and> (\<exists>m \<in> set (c_GroupMember (store w)).
                          m_groupId m = newObjectId b \<and> m_uid m = uid) \<longrightarrow>
                    (\<exists>rows. findAll ev' uid (store w) = Inr rows
                        \<and> newObjectId b \<in> set (map r_id rows)))"
    by (intro bexI [of _ b] exI [of _ ?g]) simp_all
next
  assume "first_fault ev [InsertOne, AddOne, Append, FindOne, CommitTransaction] = None
            \<and> newObjectId ev \<notin> set (map g_id (c_Group d))"
  then have n: "first_fault ev [InsertOne, AddOne, Append, FindOne, CommitTransaction] = None"
    and fg: "newObjectId ev \<notin> set (map g_id (c_Group d))"
    by simp_all
  from create_ok [OF n fg] show "\<exists>r w. create ev later name createdBy None d = (Inr r, w)"
    by blast
qed

theorem create_plain_group_not_counted_witness:
  "\<exists>w. create ex_env [] ''team'' 10 None ex_db
        = (Inr (Some \<lparr>g_id = 7, g_name = Val ''team'', g_appid = Null, g_createdBy = Val 10,
                      g_createdAt = Val 100, g_updatedAt = Val 101\<rparr>), w)
      \<and> map g_id (c_Group (store w)) = [1, 2, 3, 4, 7]
      \<and> countGroups ex_env 10 ex_db = Inr 1
      \<and> countGroups ex_env 10 (store w) = Inr 1
      \<and> (\<exists>rows. findAll ex_env 10 (store w) = Inr rows \<and> 7 \<in> set (map r_id rows))"
proof -
  have iu: "\<forall>a \<in> set (ex_env # []). \<not> ignoreUndefined a"
    by (simp add: ex_env_def)
  have ok: "faults ex_env Aggregate = None"
    by (simp add: ex_env_def)
  have n: "first_fault ex_env [InsertOne, AddOne, Append, FindOne, CommitTransaction] = None
            \<and> newObjectId ex_env \<notin> set (map g_id (c_Group ex_db))"
    by (simp add: ex_env_def ex_db_def)
  have one: "countGroups ex_env 10 ex_db = Inr 1"
    by (simp add: countGroups_def ex_env_def ex_db_def)
  note t = create_plain_group_not_counted [OF iu, of "''team''" 10 ex_db ex_env]
  from t n obtain r w where c: "create ex_env [] ''team'' 10 None ex_db = (Inr r, w)"
    by blast
  from create_Inr [OF c] have "store w = created ex_env ''team'' 10 None ex_db"
    by simp
  then have own: "\<exists>m \<in> set (c_GroupMember (store w)).
      m_groupId m = newObjectId ex_env \<and> m_uid m = 10"
    by (simp add: created_def)
  from t c have "r = Some \<lparr>g_id = newObjectId ex_env, g_name = Val ''team'', g_appid = Null,
                     g_createdBy = Val 10, g_createdAt = Val (now1 ex_env),
                     g_updatedAt = Val (now2 ex_env)\<rparr>"
    and "c_Group (store w) = c_Group ex_db @
            [\<lparr>g_id = newObjectId ex_env, g_name = Val ''team'', g_appid = Null,
              g_createdBy = Val 10, g_createdAt = Val (now1 ex_env),
              g_updatedAt = Val (now2 ex_env)\<rparr>]"
    and "countGroups ex_env 10 (store w) = countGroups ex_env 10 ex_db"
    and "\<forall>uid. faults ex_env Aggregate = None
            \<and> (\<exists>m \<in> set (c_GroupMember (store w)).
                  m_groupId m = newObjectId ex_env \<and> m_uid m = uid) \<longrightarrow>
            (\<exists>rows. findAll ex_env uid (store w) = Inr rows
                \<and> newObjectId ex_env \<in> set (map r_id rows))"
    by auto
  with c one ok own show ?thesis
    by (auto simp: ex_env_def ex_db_def)
qed

text \<open>
  Claim C10. The claim holds for a session of the caller (\<open>delete\<close> never ends it), for
  \<open>create\<close> (its session is always ended) and for \<open>delete\<close> with its own session on every
  path that enters the \<open>try\<close>; these are the three lemmas on the life of the session
  above. It fails on one path: \<open>delete\<close> reads the group after it has started its session
  and before the \<open>try\<close>, so when that read throws, the \<open>finally\<close> is never reached. Here
  the read of group 1 is rejected: the caller gets the error, and the session that
  \<open>delete\<close> started has not been ended.
\<close>

theorem delete_leaks_session_when_first_read_throws:
  "fst (delete (ex_env_failing FindOne) 1 None ex_db) = Inl (StorageError 1)
   \<and> hasEnded (sess (snd (delete (ex_env_failing FindOne) 1 None ex_db))) = False"
proof -
  have "faults (ex_env_failing FindOne) FindOne = Some (StorageError 1)"
    by (simp add: ex_env_failing_def)
  from delete_preread_throws [OF this] show ?thesis
    by (simp add: startSession_def)
qed

end
